theory Spec2Isabelle
  imports Complex_Main "HOL-Library.Multiset" "HOL-Library.Char_ord" "HOL-Library.List_Lexorder"
begin

section \<open>Numbers\<close>

text \<open>
  JavaScript numbers are IEEE doubles. A finite number is modelled by the rational it
  denotes (rounding of the arithmetic on fractions is not modelled); the three values
  that are not finite are kept apart, since a division by zero produces them instead of
  raising and \<open>toFixed\<close> prints them.
\<close>

datatype jsnum = Num rat | PosInfinity | NegInfinity | NaN

text \<open>\<open>a / b\<close> on finite operands. Every zero divisor of the sources is a positive
  zero (a length, a sum of counters, or \<open>max - min\<close>).\<close>

definition js_div :: "rat \<Rightarrow> rat \<Rightarrow> jsnum" where
  "js_div a b =
     (if b \<noteq> 0 then Num (a / b)
      else if 0 < a then PosInfinity
      else if a < 0 then NegInfinity
      else NaN)"

text \<open>\<open>x * c\<close> and \<open>x + c\<close> for a finite \<open>c\<close>.\<close>

fun js_mul :: "jsnum \<Rightarrow> rat \<Rightarrow> jsnum" where
  "js_mul (Num a) c = Num (a * c)"
| "js_mul PosInfinity c = (if 0 < c then PosInfinity else if c < 0 then NegInfinity else NaN)"
| "js_mul NegInfinity c = (if 0 < c then NegInfinity else if c < 0 then PosInfinity else NaN)"
| "js_mul NaN c = NaN"


definition is_finite :: "jsnum \<Rightarrow> bool" where
  "is_finite x = (case x of Num q \<Rightarrow> True | _ \<Rightarrow> False)"

text \<open>A number of the interval \<open>[0, 1]\<close>.\<close>

definition in_unit :: "jsnum \<Rightarrow> bool" where
  "in_unit x = (case x of Num q \<Rightarrow> 0 \<le> q \<and> q \<le> 1 | _ \<Rightarrow> False)"

text \<open>Decimal digits of a natural number, and of an integer (template literals).\<close>

definition digit_char :: "nat \<Rightarrow> char" where
  "digit_char d = char_of (48 + d)"

fun digits :: "nat \<Rightarrow> string" where
  "digits n = (if n < 10 then [digit_char n] else digits (n div 10) @ [digit_char (n mod 10)])"

declare digits.simps [simp del]

definition string_of_int :: "int \<Rightarrow> string" where
  "string_of_int i = (if i < 0 then CHR ''-'' # digits (nat (- i)) else digits (nat i))"

text \<open>
  \<open>x.toFixed(1)\<close>: a number that is not finite prints as its name; a finite one is
  rounded to the nearest tenth, the larger one on a tie, after its sign is taken off
  (values of \<open>10^21\<close> and more, which print in exponent form, do not occur: the
  arguments are percentages).
\<close>

fun toFixed1 :: "jsnum \<Rightarrow> string" where
  "toFixed1 NaN = ''NaN''"
| "toFixed1 PosInfinity = ''Infinity''"
| "toFixed1 NegInfinity = ''-Infinity''"
| "toFixed1 (Num x) =
     (let n = nat \<lfloor>\<bar>x\<bar> * 10 + 1 / 2\<rfloor>
      in (if x < 0 then ''-'' else '''') @ digits (n div 10) @ ''.'' @ digits (n mod 10))"

section \<open>Dataset and configuration (functions.js)\<close>

text \<open>One row of \<open>RAW_DATA\<close>. The flags and the label are numbers; the code compares
  them with \<open>=== 1\<close>, \<open>=== 0\<close> or by truthiness and never checks that they are
  binary.\<close>

record patient =
  age :: int
  days_wait :: int
  gender :: int
  sms_received :: int
  scholarship :: int
  hipertension :: int
  diabetes :: int
  alcoholism :: int
  neighbourhood :: string
  noshow :: int

definition binary :: "int \<Rightarrow> bool" where
  "binary b = (b = 0 \<or> b = 1)"

text \<open>\<open>configuration.age\<close> and \<open>configuration.days\<close> are \<open>{min, max}\<close> objects
  (the fields are named \<open>min_val\<close>, \<open>max_val\<close> here, \<open>age_cfg\<close>, \<open>days_cfg\<close>
  for the two objects). The module that declares the initial object is not among the
  sources, so the initial configuration is a parameter of \<open>initConfiguration\<close>.\<close>

record bounds =
  min_val :: rat
  max_val :: rat

definition inside :: "bounds \<Rightarrow> rat \<Rightarrow> bool" where
  "inside b v = (min_val b \<le> v \<and> v \<le> max_val b)"

record configuration =
  age_cfg :: bounds
  days_cfg :: bounds
  hoods :: "string list"

definition scan :: "configuration \<Rightarrow> patient \<Rightarrow> configuration" where
  "scan c r =
     (let c1 = (if of_int (age r) < min_val (age_cfg c)
                then c\<lparr>age_cfg := (age_cfg c)\<lparr>min_val := of_int (age r)\<rparr>\<rparr> else c);
          c2 = (if of_int (age r) > max_val (age_cfg c1)
                then c1\<lparr>age_cfg := (age_cfg c1)\<lparr>max_val := of_int (age r)\<rparr>\<rparr> else c1);
          c3 = (if of_int (days_wait r) < min_val (days_cfg c2)
                then c2\<lparr>days_cfg := (days_cfg c2)\<lparr>min_val := of_int (days_wait r)\<rparr>\<rparr> else c2);
          c4 = (if of_int (days_wait r) > max_val (days_cfg c3)
                then c3\<lparr>days_cfg := (days_cfg c3)\<lparr>max_val := of_int (days_wait r)\<rparr>\<rparr> else c3)
      in if neighbourhood r \<in> set (hoods c4) then c4
         else c4\<lparr>hoods := hoods c4 @ [neighbourhood r]\<rparr>)"

definition initConfiguration :: "configuration \<Rightarrow> patient list \<Rightarrow> configuration" where
  "initConfiguration c0 RAW_DATA =
     (let c = foldl scan c0 RAW_DATA in c\<lparr>hoods := sort (hoods c)\<rparr>)"

subsection \<open>Normalization\<close>

definition normalizeData :: "rat \<Rightarrow> rat \<Rightarrow> rat \<Rightarrow> jsnum" where
  "normalizeData v mn mx = (if mn = mx then Num (1 / 2) else js_div (v - mn) (mx - mn))"


subsection \<open>Input vector\<close>

text \<open>The object \<open>buildInputVector\<close> returns; its fields carry the prefix \<open>in_\<close>.\<close>

record input_vector =
  in_age :: jsnum
  in_days_wait :: jsnum
  in_gender :: int
  in_sms_received :: int
  in_scholarship :: int
  in_hipertension :: int
  in_diabetes :: int
  in_alcoholism :: int

definition buildInputVector ::
  "configuration \<Rightarrow> rat \<Rightarrow> rat \<Rightarrow> int \<Rightarrow> int \<Rightarrow> int \<Rightarrow> int \<Rightarrow> int \<Rightarrow> int \<Rightarrow> input_vector" where
  "buildInputVector cfg a d g sms schl ht db al =
     \<lparr>in_age = normalizeData a (min_val (age_cfg cfg)) (max_val (age_cfg cfg)),
      in_days_wait = normalizeData d (min_val (days_cfg cfg)) (max_val (days_cfg cfg)),
      in_gender = g,
      in_sms_received = sms,
      in_scholarship = schl,
      in_hipertension = ht,
      in_diabetes = db,
      in_alcoholism = al\<rparr>"

definition input_of :: "configuration \<Rightarrow> patient \<Rightarrow> input_vector" where
  "input_of cfg r =
     buildInputVector cfg (of_int (age r)) (of_int (days_wait r)) (gender r) (sms_received r)
       (scholarship r) (hipertension r) (diabetes r) (alcoholism r)"

section \<open>Shuffling\<close>

text \<open>
  \<open>Math.random()\<close> is a parameter: \<open>rnd k\<close> is the value of the \<open>k\<close>-th call, a
  number in \<open>[0, 1)\<close>. The loop
  \<^verbatim>\<open>for (let i = a.length - 1; i > 0; i--) { j = Math.floor(Math.random() * (i + 1)); swap }\<close>
  returns the number of calls made so far with the list. With a number in \<open>[0, 1)\<close>
  the index \<open>j\<close> is at most \<open>i\<close>, so the swap reads and writes inside the list; and
  since every \<open>j \<le> i\<close> is the floor of \<open>u * (i + 1)\<close> for some such \<open>u\<close>, taking
  the product exactly loses no run of the loop.
\<close>

definition valid_rng :: "(nat \<Rightarrow> rat) \<Rightarrow> bool" where
  "valid_rng rnd = (\<forall>k. 0 \<le> rnd k \<and> rnd k < 1)"

definition swap :: "nat \<Rightarrow> nat \<Rightarrow> 'a list \<Rightarrow> 'a list" where
  "swap i j xs = xs[i := xs ! j, j := xs ! i]"

fun shuffle_from :: "(nat \<Rightarrow> rat) \<Rightarrow> nat \<Rightarrow> nat \<Rightarrow> 'a list \<Rightarrow> nat \<times> 'a list" where
  "shuffle_from rnd k 0 xs = (k, xs)"
| "shuffle_from rnd k (Suc i) xs =
     (let j = nat \<lfloor>rnd k * (of_nat (Suc i) + 1)\<rfloor>
      in shuffle_from rnd (Suc k) i (swap (Suc i) j xs))"

definition shuffle :: "(nat \<Rightarrow> rat) \<Rightarrow> nat \<Rightarrow> 'a list \<Rightarrow> nat \<times> 'a list" where
  "shuffle rnd k xs = (if xs = [] then (k, xs) else shuffle_from rnd k (length xs - 1) xs)"

section \<open>Class-balancing sampler (functions.js)\<close>

record sample =
  input :: input_vector
  output_noshow :: int

definition OVERSAMPLE_FACTOR :: nat where
  "OVERSAMPLE_FACTOR = 3"

definition entry :: "configuration \<Rightarrow> patient \<Rightarrow> sample" where
  "entry cfg r = \<lparr>input = input_of cfg r, output_noshow = noshow r\<rparr>"

text \<open>The body of the \<open>forEach\<close>: one push, and \<open>OVERSAMPLE_FACTOR - 1\<close> more
  (the inner loop runs for \<open>i = 1, ..., OVERSAMPLE_FACTOR - 1\<close>) when the label is 1.\<close>

definition push_samples :: "configuration \<Rightarrow> sample list \<Rightarrow> patient \<Rightarrow> sample list" where
  "push_samples cfg samples r =
     (let samples1 = samples @ [entry cfg r]
      in if noshow r = 1 then samples1 @ replicate (OVERSAMPLE_FACTOR - 1) (entry cfg r)
         else samples1)"

text \<open>The list returned is also stored in \<open>myBrain.trainingData\<close>.\<close>

definition prepareTrainingData ::
  "configuration \<Rightarrow> (nat \<Rightarrow> rat) \<Rightarrow> patient list \<Rightarrow> sample list" where
  "prepareTrainingData cfg rnd RAW_DATA =
     snd (shuffle rnd 0 (foldl (push_samples cfg) [] RAW_DATA))"

section \<open>Numeric evaluator (functions.js)\<close>

text \<open>
  What \<open>myBrain.net.run\<close> returns: an object (of which the code reads the property
  \<open>noshow\<close>, here \<open>None\<close> when it is missing or not a number), an array (of which
  it reads element 0) or a number. The predictor itself is a parameter.
\<close>

datatype net_output = OutObject "rat option" | OutArray "rat list" | OutNumber rat

definition predVal :: "net_output \<Rightarrow> rat option" where
  "predVal raw =
     (case raw of
        OutObject v \<Rightarrow> v
      | OutArray a \<Rightarrow> (case a of [] \<Rightarrow> None | x # _ \<Rightarrow> Some x)
      | OutNumber x \<Rightarrow> Some x)"

definition THRESHOLD :: rat where
  "THRESHOLD = 1 / 2"

text \<open>\<open>predVal > THRESHOLD ? 1 : 0\<close>; the comparison is false when \<open>predVal\<close> is
  undefined.\<close>

definition predClass :: "net_output \<Rightarrow> int" where
  "predClass raw =
     (case predVal raw of None \<Rightarrow> 0 | Some v \<Rightarrow> if v > THRESHOLD then 1 else 0)"

record counters =
  correct :: nat
  tpShow :: nat
  fnShow :: nat
  tpNoshow :: nat
  fnNoshow :: nat

definition no_counts :: counters where
  "no_counts = \<lparr>correct = 0, tpShow = 0, fnShow = 0, tpNoshow = 0, fnNoshow = 0\<rparr>"

text \<open>The counting both evaluators do for one example.\<close>

definition tally :: "bool \<Rightarrow> bool \<Rightarrow> counters \<Rightarrow> counters" where
  "tally is_correct is_show c =
     (if is_correct
      then (if is_show then c\<lparr>correct := correct c + 1, tpShow := tpShow c + 1\<rparr>
            else c\<lparr>correct := correct c + 1, tpNoshow := tpNoshow c + 1\<rparr>)
      else (if is_show then c\<lparr>fnShow := fnShow c + 1\<rparr>
            else c\<lparr>fnNoshow := fnNoshow c + 1\<rparr>))"

definition count_record ::
  "configuration \<Rightarrow> (input_vector \<Rightarrow> net_output) \<Rightarrow> counters \<Rightarrow> patient \<Rightarrow> counters" where
  "count_record cfg net c r =
     (let raw = net (input_of cfg r); actual = noshow r
      in tally (predClass raw = actual) (actual = 0) c)"

text \<open>\<open>((a / b) * 100).toFixed(1)\<close>\<close>

definition percent :: "nat \<Rightarrow> nat \<Rightarrow> string" where
  "percent a b = toFixed1 (js_mul (js_div (of_nat a) (of_nat b)) 100)"

record accuracy =
  overall :: string
  showUpRecall :: string
  noshowRecall :: string

definition evaluateAccuracy ::
  "configuration \<Rightarrow> (input_vector \<Rightarrow> net_output) \<Rightarrow> patient list \<Rightarrow> accuracy" where
  "evaluateAccuracy cfg net RAW_DATA =
     (let c = foldl (count_record cfg net) no_counts RAW_DATA
      in \<lparr>overall = percent (correct c) (length RAW_DATA),
          showUpRecall =
            (if tpShow c + fnShow c > 0 then percent (tpShow c) (tpShow c + fnShow c)
             else ''0.0''),
          noshowRecall =
            (if tpNoshow c + fnNoshow c > 0 then percent (tpNoshow c) (tpNoshow c + fnNoshow c)
             else ''0.0'')\<rparr>)"

section \<open>Text encoding (lstm.js, lstm.worker.js)\<close>

text \<open>
  A \<open>char\<close> stands for the UTF-16 code unit with the same code, so the strings of the
  model are the JavaScript strings over the code units 0 to 255. On these, \<open>\s\<close> and
  \<open>trim\<close> know the white space 9 to 13, 32 and 160, and \<open>toLowerCase\<close> moves
  \<open>A\<close> to \<open>Z\<close> and the capital letters 192 to 222 (215 apart) up by 32.
\<close>

definition is_space :: "char \<Rightarrow> bool" where
  "is_space c = (let n = (of_char c :: nat) in (9 \<le> n \<and> n \<le> 13) \<or> n = 32 \<or> n = 160)"

definition is_lower :: "char \<Rightarrow> bool" where
  "is_lower c = (let n = (of_char c :: nat) in 97 \<le> n \<and> n \<le> 122)"

definition is_digit :: "char \<Rightarrow> bool" where
  "is_digit c = (let n = (of_char c :: nat) in 48 \<le> n \<and> n \<le> 57)"

definition lower_char :: "char \<Rightarrow> char" where
  "lower_char c =
     (let n = (of_char c :: nat)
      in if (65 \<le> n \<and> n \<le> 90) \<or> (192 \<le> n \<and> n \<le> 214) \<or> (216 \<le> n \<and> n \<le> 222)
         then char_of (n + 32) else c)"

definition toLowerCase :: "string \<Rightarrow> string" where
  "toLowerCase s = map lower_char s"

text \<open>\<open>replace(/[^a-z0-9\s]/g, '')\<close>\<close>

definition strip_other :: "string \<Rightarrow> string" where
  "strip_other s = filter (\<lambda>c. is_lower c \<or> is_digit c \<or> is_space c) s"

text \<open>\<open>replace(/\s+/g, ' ')\<close>: every maximal run of white space becomes one space.\<close>

function collapse_ws :: "string \<Rightarrow> string" where
  "collapse_ws [] = []"
| "collapse_ws (c # cs) =
     (if is_space c then CHR '' '' # collapse_ws (dropWhile is_space cs)
      else c # collapse_ws cs)"
  by pat_completeness auto
termination
  by (relation "measure length") (auto simp: less_Suc_eq_le length_dropWhile_le)

definition trim :: "string \<Rightarrow> string" where
  "trim s = rev (dropWhile is_space (rev (dropWhile is_space s)))"

definition cleanText :: "string \<Rightarrow> string" where
  "cleanText text = trim (collapse_ws (strip_other (toLowerCase text)))"

fun join :: "string \<Rightarrow> string list \<Rightarrow> string" where
  "join sep [] = []"
| "join sep [x] = x"
| "join sep (x # y # ys) = x @ sep @ join sep (y # ys)"

text \<open>A flag is truthy when it is not 0; \<open>filter(Boolean)\<close> drops the empty strings.\<close>

definition recordToText :: "patient \<Rightarrow> string" where
  "recordToText r =
     (let gender_s = (if gender r = 1 then ''male'' else ''female'');
          days = (if days_wait r = 0 then ''sameday'' else ''wait'' @ string_of_int (days_wait r));
          sms = (if sms_received r \<noteq> 0 then ''sms'' else ''nosms'');
          schl = (if scholarship r \<noteq> 0 then ''scholarship'' else []);
          hypert = (if hipertension r \<noteq> 0 then ''hypertension'' else []);
          diab = (if diabetes r \<noteq> 0 then ''diabetes'' else []);
          alcohol = (if alcoholism r \<noteq> 0 then ''alcoholism'' else [])
      in join '' '' (filter (\<lambda>s. s \<noteq> [])
           [gender_s, ''age'' @ string_of_int (age r), days, sms, schl, hypert, diab, alcohol]))"

text \<open>The properties of a cleaned text.\<close>

definition leading_space :: "string \<Rightarrow> bool" where
  "leading_space s = (case s of [] \<Rightarrow> False | c # _ \<Rightarrow> c = CHR '' '')"

definition trailing_space :: "string \<Rightarrow> bool" where
  "trailing_space s = leading_space (rev s)"

fun doubled_space :: "string \<Rightarrow> bool" where
  "doubled_space (c # d # cs) = ((c = CHR '' '' \<and> d = CHR '' '') \<or> doubled_space (d # cs))"
| "doubled_space cs = False"

definition clean_char :: "char \<Rightarrow> bool" where
  "clean_char c = (is_lower c \<or> is_digit c \<or> c = CHR '' '')"

section \<open>Dataset builder (lstm.worker.js)\<close>

record text_sample =
  t_input :: string
  t_output :: string
  t_noshow :: int

definition encode :: "patient \<Rightarrow> text_sample" where
  "encode r =
     \<lparr>t_input = cleanText (recordToText r),
      t_output = (if noshow r = 1 then ''no'' else ''yes''),
      t_noshow = noshow r\<rparr>"

text \<open>
  The cut indices \<open>Math.floor(all.length * 0.70)\<close> and \<open>Math.floor(all.length * 0.85)\<close>
  are computed in double arithmetic, and since the result is an index the rounding of the
  product is modelled exactly. The literals are the doubles \<open>6305039478318694 / 2^53\<close> and
  \<open>7656119366529843 / 2^53\<close>; the product of a length \<open>n\<close> (below \<open>2^53\<close>) with
  \<open>c / 2^53\<close> is \<open>n * c / 2^53\<close> rounded to 53 significant bits, to the nearest, to the
  even one on a tie.
\<close>

fun bit_length :: "nat \<Rightarrow> nat" where
  "bit_length n = (if n = 0 then 0 else Suc (bit_length (n div 2)))"

declare bit_length.simps [simp del]

definition round_to_53 :: "nat \<Rightarrow> nat" where
  "round_to_53 N =
     (if bit_length N \<le> 53 then N
      else (let s = bit_length N - 53; m = N div 2 ^ s; r = N mod 2 ^ s
            in if 2 ^ s < 2 * r \<or> (2 * r = 2 ^ s \<and> odd m) then (m + 1) * 2 ^ s else m * 2 ^ s))"

text \<open>\<open>n * x\<close> for the double \<open>x = c / 2^53\<close>, and \<open>Math.floor(n * x)\<close>.\<close>

definition times_double :: "nat \<Rightarrow> nat \<Rightarrow> rat" where
  "times_double n c = of_nat (round_to_53 (n * c)) / 2 ^ 53"

definition floor_times :: "nat \<Rightarrow> nat \<Rightarrow> nat" where
  "floor_times n c = nat \<lfloor>times_double n c\<rfloor>"

definition double_0_70 :: nat where
  "double_0_70 = 6305039478318694"

definition double_0_85 :: nat where
  "double_0_85 = 7656119366529843"

definition trainEnd :: "nat \<Rightarrow> nat" where
  "trainEnd n = floor_times n double_0_70"

definition valEnd :: "nat \<Rightarrow> nat" where
  "valEnd n = floor_times n double_0_85"

text \<open>\<open>a.slice(b, e)\<close> for indices that are not negative.\<close>

definition js_slice :: "nat \<Rightarrow> nat \<Rightarrow> 'a list \<Rightarrow> 'a list" where
  "js_slice b e xs = take (e - b) (drop b xs)"

definition split3 :: "'a list \<Rightarrow> 'a list \<times> 'a list \<times> 'a list" where
  "split3 all =
     (js_slice 0 (trainEnd (length all)) all,
      js_slice (trainEnd (length all)) (valEnd (length all)) all,
      drop (valEnd (length all)) all)"

text \<open>\<open>train = [...rawTrain]\<close>, then two pushes for every sample of \<open>rawTrain\<close>
  whose label is 1.\<close>

definition oversample :: "text_sample list \<Rightarrow> text_sample list" where
  "oversample rawTrain =
     foldl (\<lambda>train s. if t_noshow s = 1 then train @ [s, s] else train) rawTrain rawTrain"

record dataset =
  train :: "text_sample list"
  validation :: "text_sample list"
  test :: "text_sample list"

definition buildDataset :: "(nat \<Rightarrow> rat) \<Rightarrow> patient list \<Rightarrow> dataset" where
  "buildDataset rnd RAW_DATA =
     (let (k, all) = shuffle rnd 0 (map encode RAW_DATA);
          (rawTrain, val, tst) = split3 all;
          (k', trn) = shuffle rnd k (oversample rawTrain)
      in \<lparr>train = trn, validation = val, test = tst\<rparr>)"

text \<open>The list \<open>all\<close> after the first shuffle.\<close>

definition shuffled_all :: "(nat \<Rightarrow> rat) \<Rightarrow> patient list \<Rightarrow> text_sample list" where
  "shuffled_all rnd RAW_DATA = snd (shuffle rnd 0 (map encode RAW_DATA))"

section \<open>Text evaluator (lstm.worker.js)\<close>

text \<open>\<open>net.run(s.input) || ''\<close>: the predictor is a parameter, \<open>None\<close> a falsy
  result.\<close>

definition predLabel :: "string option \<Rightarrow> string" where
  "predLabel res =
     (let out = (case res of None \<Rightarrow> [] | Some s \<Rightarrow> s)
      in case trim (toLowerCase out) of
           [] \<Rightarrow> ''yes''
         | c # _ \<Rightarrow> if c = CHR ''n'' then ''no'' else ''yes'')"

definition count_sample :: "(string \<Rightarrow> string option) \<Rightarrow> counters \<Rightarrow> text_sample \<Rightarrow> counters" where
  "count_sample net c s =
     tally (predLabel (net (t_input s)) = t_output s) (t_output s = ''yes'') c"

record set_metrics =
  acc :: string
  showRecall :: string
  noshowRecall_set :: string

definition evalSet :: "(string \<Rightarrow> string option) \<Rightarrow> text_sample list \<Rightarrow> set_metrics" where
  "evalSet net samples =
     (let c = foldl (count_sample net) no_counts samples
      in \<lparr>acc = (if length samples > 0 then percent (correct c) (length samples) else ''0.0''),
          showRecall =
            (if tpShow c + fnShow c > 0 then percent (tpShow c) (tpShow c + fnShow c)
             else ''0.0''),
          noshowRecall_set =
            (if tpNoshow c + fnNoshow c > 0 then percent (tpNoshow c) (tpNoshow c + fnNoshow c)
             else ''0.0'')\<rparr>)"

section \<open>The LSTM worker's manager (lstm.js)\<close>

text \<open>
  The module state: the worker singleton (\<open>None\<close> for \<open>null\<close>; a worker is named by
  a number), \<open>lstmState.trained\<close>, and what the module has done to its workers: the
  messages posted and the \<open>message\<close> listeners that \<open>predictFromText\<close> has added.
\<close>

datatype request = Train | Predict string

datatype worker_msg =
    Samples string
  | Log string
  | Progress nat
  | Done string
  | Error string
  | Prediction string string

record manager =
  worker :: "nat option"
  trained :: bool
  next_worker :: nat
  posted :: "(nat \<times> request) list"
  listeners :: nat

definition initial :: manager where
  "initial = \<lparr>worker = None, trained = False, next_worker = 0, posted = [], listeners = 0\<rparr>"

text \<open>\<open>trainLstm\<close>: the previous worker is terminated, a new one is created and is sent
  the dataset.\<close>

definition trainLstm :: "manager \<Rightarrow> manager" where
  "trainLstm st =
     st\<lparr>worker := Some (next_worker st),
        next_worker := next_worker st + 1,
        posted := posted st @ [(next_worker st, Train)]\<rparr>"

text \<open>\<open>worker.onmessage\<close>: only \<open>done\<close> changes the module state (the other cases
  call the caller's callbacks).\<close>

definition onmessage :: "worker_msg \<Rightarrow> manager \<Rightarrow> manager" where
  "onmessage msg st = (case msg of Done metrics \<Rightarrow> st\<lparr>trained := True\<rparr> | _ \<Rightarrow> st)"

text \<open>\<open>predictFromText\<close>: the promise is rejected inside the executor, or a listener
  is added and the text is posted, the promise pending until the worker answers.\<close>

datatype promise = Rejected string | Pending

definition predictFromText :: "string \<Rightarrow> manager \<Rightarrow> promise \<times> manager" where
  "predictFromText rawText st =
     (case worker st of
        None \<Rightarrow> (Rejected ''LSTM not trained yet'', st)
      | Some w \<Rightarrow>
          if \<not> trained st then (Rejected ''LSTM not trained yet'', st)
          else (Pending, st\<lparr>posted := posted st @ [(w, Predict rawText)],
                            listeners := listeners st + 1\<rparr>))"

text \<open>What can happen to the module: a call of \<open>trainLstm\<close>, a message from the
  current worker (none can arrive while there is no worker), a call of
  \<open>predictFromText\<close>.\<close>

datatype event = CallTrain | FromWorker worker_msg | CallPredict string

fun step :: "manager \<Rightarrow> event \<Rightarrow> manager" where
  "step st CallTrain = trainLstm st"
| "step st (FromWorker msg) = (if worker st = None then st else onmessage msg st)"
| "step st (CallPredict txt) = snd (predictFromText txt st)"

definition run :: "event list \<Rightarrow> manager" where
  "run evs = foldl step initial evs"

fun is_done :: "event \<Rightarrow> bool" where
  "is_done (FromWorker (Done m)) = True"
| "is_done e = False"

section \<open>Example data\<close>

definition start_cfg :: configuration where
  "start_cfg =
     \<lparr>age_cfg = \<lparr>min_val = 999, max_val = 0\<rparr>,
      days_cfg = \<lparr>min_val = 999, max_val = 0\<rparr>,
      hoods = []\<rparr>"

definition row1 :: patient where
  "row1 = \<lparr>age = 62, days_wait = 0, gender = 0, sms_received = 0, scholarship = 0,
            hipertension = 1, diabetes = 0, alcoholism = 0,
            neighbourhood = ''CENTRO'', noshow = 1\<rparr>"

definition row2 :: patient where
  "row2 = \<lparr>age = 8, days_wait = 2, gender = 1, sms_received = 1, scholarship = 0,
            hipertension = 0, diabetes = 0, alcoholism = 0,
            neighbourhood = ''BONFIM'', noshow = 0\<rparr>"

definition row3 :: patient where
  "row3 = \<lparr>age = 30, days_wait = 14, gender = 0, sms_received = 1, scholarship = 1,
            hipertension = 0, diabetes = 0, alcoholism = 0,
            neighbourhood = ''CENTRO'', noshow = 0\<rparr>"

section \<open>Normalization: the formula and the round trip\<close>

text \<open>
  Claim C4. For every value \<open>v\<close> and bounds \<open>min\<close>, \<open>max\<close>, \<open>normalizeData\<close>
  returns \<open>(v - min) / (max - min)\<close> when the bounds differ and \<open>0.5\<close> when they are
  equal, whatever \<open>v\<close> is; the result is always a finite number, so no division by zero
  takes place.
\<close>

theorem normalizeData_formula:
  "(mn \<noteq> mx \<longrightarrow> normalizeData v mn mx = Num ((v - mn) / (mx - mn))) \<and>
   normalizeData v mn mn = Num (1 / 2) \<and>
   is_finite (normalizeData v mn mx)"
  by (simp add: normalizeData_def js_div_def is_finite_def)

theorem normalizeData_formula_witness:
  "(0::rat) \<noteq> 100 \<and> normalizeData 30 0 100 = Num (3 / 10) \<and>
   normalizeData 30 7 7 = Num (1 / 2)"
  using normalizeData_formula [of 0 100 30] normalizeData_formula [of 7 7 30] by simp



section \<open>The input vector lies in the unit cube\<close>

lemma normalizeData_in_unit: "mn \<le> v \<Longrightarrow> v \<le> mx \<Longrightarrow> in_unit (normalizeData v mn mx)"
  by (simp add: normalizeData_def js_div_def in_unit_def divide_le_eq_1)

lemma scan_age_min: "min_val (age_cfg (scan c r)) = min (min_val (age_cfg c)) (of_int (age r))"
  by (simp add: scan_def Let_def)

lemma scan_age_max: "max_val (age_cfg (scan c r)) = max (max_val (age_cfg c)) (of_int (age r))"
  by (simp add: scan_def Let_def)

lemma scan_days_min:
  "min_val (days_cfg (scan c r)) = min (min_val (days_cfg c)) (of_int (days_wait r))"
  by (simp add: scan_def Let_def)

lemma scan_days_max:
  "max_val (days_cfg (scan c r)) = max (max_val (days_cfg c)) (of_int (days_wait r))"
  by (simp add: scan_def Let_def)

text \<open>Scanning only widens the bounds, so a row scanned earlier stays inside them.\<close>

lemma foldl_scan_widens:
  "min_val (age_cfg (foldl scan c rs)) \<le> min_val (age_cfg c) \<and>
   max_val (age_cfg c) \<le> max_val (age_cfg (foldl scan c rs)) \<and>
   min_val (days_cfg (foldl scan c rs)) \<le> min_val (days_cfg c) \<and>
   max_val (days_cfg c) \<le> max_val (days_cfg (foldl scan c rs))"
proof (induction rs arbitrary: c)
  case Nil
  show ?case by simp
next
  case (Cons r rs)
  from Cons.IH [of "scan c r"] show ?case
    by (simp add: scan_age_min scan_age_max scan_days_min scan_days_max)
qed

lemma foldl_scan_covers:
  "r \<in> set rs \<Longrightarrow>
   min_val (age_cfg (foldl scan c rs)) \<le> of_int (age r) \<and>
   of_int (age r) \<le> max_val (age_cfg (foldl scan c rs)) \<and>
   min_val (days_cfg (foldl scan c rs)) \<le> of_int (days_wait r) \<and>
   of_int (days_wait r) \<le> max_val (days_cfg (foldl scan c rs))"
proof (induction rs arbitrary: c)
  case Nil
  then show ?case by simp
next
  case (Cons x rs)
  show ?case
  proof (cases "r = x")
    case True
    from foldl_scan_widens [of "scan c x" rs] show ?thesis
      by (simp add: True scan_age_min scan_age_max scan_days_min scan_days_max)
  next
    case False
    with Cons.prems have "r \<in> set rs" by simp
    from Cons.IH [OF this, of "scan c x"] show ?thesis by simp
  qed
qed

lemma initConfiguration_bounds:
  "age_cfg (initConfiguration c0 rs) = age_cfg (foldl scan c0 rs) \<and>
   days_cfg (initConfiguration c0 rs) = days_cfg (foldl scan c0 rs)"
  by (simp add: initConfiguration_def Let_def)

text \<open>
  Claim C10. When the age lies within the age bounds of the configuration, the waiting
  days within the days bounds, and the six flags are 0 or 1, all eight components of the
  vector \<open>buildInputVector\<close> builds lie in \<open>[0, 1]\<close>: the two normalized ones do
  (they are \<open>0.5\<close> when the bounds coincide) and the flags pass through unchanged.
  Every row that \<open>initConfiguration\<close> has scanned lies within the bounds it computed,
  whatever the configuration was before.
\<close>

theorem buildInputVector_unit:
  "(inside (age_cfg cfg) a \<and> inside (days_cfg cfg) d \<and>
    binary g \<and> binary sms \<and> binary schl \<and> binary ht \<and> binary db \<and> binary al \<longrightarrow>
    (let v = buildInputVector cfg a d g sms schl ht db al
     in in_unit (in_age v) \<and> in_unit (in_days_wait v) \<and>
        (min_val (age_cfg cfg) = max_val (age_cfg cfg) \<longrightarrow> in_age v = Num (1 / 2)) \<and>
        (min_val (days_cfg cfg) = max_val (days_cfg cfg) \<longrightarrow> in_days_wait v = Num (1 / 2)) \<and>
        in_gender v = g \<and> in_sms_received v = sms \<and> in_scholarship v = schl \<and>
        in_hipertension v = ht \<and> in_diabetes v = db \<and> in_alcoholism v = al \<and>
        binary (in_gender v) \<and> binary (in_sms_received v) \<and> binary (in_scholarship v) \<and>
        binary (in_hipertension v) \<and> binary (in_diabetes v) \<and> binary (in_alcoholism v))) \<and>
   (\<forall>r \<in> set RAW_DATA.
      inside (age_cfg (initConfiguration c0 RAW_DATA)) (of_int (age r)) \<and>
      inside (days_cfg (initConfiguration c0 RAW_DATA)) (of_int (days_wait r)))"
proof (intro conjI impI ballI)
  assume h: "inside (age_cfg cfg) a \<and> inside (days_cfg cfg) d \<and>
    binary g \<and> binary sms \<and> binary schl \<and> binary ht \<and> binary db \<and> binary al"
  have 1: "in_unit (normalizeData a (min_val (age_cfg cfg)) (max_val (age_cfg cfg)))"
    using h by (intro normalizeData_in_unit) (simp_all add: inside_def)
  have 2: "in_unit (normalizeData d (min_val (days_cfg cfg)) (max_val (days_cfg cfg)))"
    using h by (intro normalizeData_in_unit) (simp_all add: inside_def)
  show "let v = buildInputVector cfg a d g sms schl ht db al
     in in_unit (in_age v) \<and> in_unit (in_days_wait v) \<and>
        (min_val (age_cfg cfg) = max_val (age_cfg cfg) \<longrightarrow> in_age v = Num (1 / 2)) \<and>
        (min_val (days_cfg cfg) = max_val (days_cfg cfg) \<longrightarrow> in_days_wait v = Num (1 / 2)) \<and>
        in_gender v = g \<and> in_sms_received v = sms \<and> in_scholarship v = schl \<and>
        in_hipertension v = ht \<and> in_diabetes v = db \<and> in_alcoholism v = al \<and>
        binary (in_gender v) \<and> binary (in_sms_received v) \<and> binary (in_scholarship v) \<and>
        binary (in_hipertension v) \<and> binary (in_diabetes v) \<and> binary (in_alcoholism v)"
    using 1 2 h by (simp add: buildInputVector_def Let_def normalizeData_def)
next
  fix r assume "r \<in> set RAW_DATA"
  from foldl_scan_covers [OF this, of c0]
  show "inside (age_cfg (initConfiguration c0 RAW_DATA)) (of_int (age r))"
    and "inside (days_cfg (initConfiguration c0 RAW_DATA)) (of_int (days_wait r))"
    by (simp_all add: inside_def initConfiguration_bounds)
qed

theorem buildInputVector_unit_witness:
  "inside (age_cfg (initConfiguration start_cfg [row1, row2, row3])) (of_int (age row3)) \<and>
   inside (days_cfg (initConfiguration start_cfg [row1, row2, row3])) (of_int (days_wait row3)) \<and>
   binary (gender row3) \<and> binary (sms_received row3) \<and> binary (scholarship row3) \<and>
   binary (hipertension row3) \<and> binary (diabetes row3) \<and> binary (alcoholism row3) \<and>
   in_unit (in_age (input_of (initConfiguration start_cfg [row1, row2, row3]) row3)) \<and>
   in_unit (in_days_wait (input_of (initConfiguration start_cfg [row1, row2, row3]) row3)) \<and>
   in_age (input_of (initConfiguration start_cfg [row1, row2, row3]) row3) = Num (11 / 27) \<and>
   in_days_wait (input_of (initConfiguration start_cfg [row1, row2, row3]) row3) = Num 1 \<and>
   in_age (input_of (initConfiguration start_cfg [row3]) row3) = Num (1 / 2) \<and>
   in_scholarship (input_of (initConfiguration start_cfg [row1, row2, row3]) row3) = 1"
  using buildInputVector_unit [of "initConfiguration start_cfg [row1, row2, row3]"
      "of_int (age row3)" "of_int (days_wait row3)" "gender row3" "sms_received row3"
      "scholarship row3" "hipertension row3" "diabetes row3" "alcoholism row3"
      "[row1, row2, row3]" start_cfg]
  by (simp add: input_of_def buildInputVector_def normalizeData_def js_div_def in_unit_def
      inside_def binary_def initConfiguration_def scan_def start_cfg_def row1_def row2_def
      row3_def Let_def)

section \<open>The threshold of the numeric evaluator\<close>

text \<open>
  Claim C7. The numeric evaluator predicts no-show (class 1) exactly when the scalar it
  reads from the predictor's output is strictly greater than 0.5; an output of exactly
  0.5 is classified as show (class 0). The class is what the evaluator compares with the
  record's label when it counts a correct prediction.
\<close>

theorem predClass_threshold:
  "(predClass raw = 1 \<longleftrightarrow> (\<exists>v. predVal raw = Some v \<and> 1 / 2 < v)) \<and>
   (predVal raw = Some (1 / 2) \<longrightarrow> predClass raw = 0) \<and>
   (predClass raw = 0 \<or> predClass raw = 1) \<and>
   correct (count_record cfg net c r) =
     correct c + (if predClass (net (input_of cfg r)) = noshow r then 1 else 0)"
  by (auto simp: predClass_def THRESHOLD_def count_record_def tally_def Let_def
      split: option.splits)

theorem predClass_threshold_witness:
  "predVal (OutObject (Some (1 / 2))) = Some (1 / 2) \<and>
   predClass (OutObject (Some (1 / 2))) = 0 \<and>
   predClass (OutNumber (51 / 100)) = 1 \<and>
   correct (count_record start_cfg (\<lambda>v. OutObject (Some (1 / 2))) no_counts row1) = 0"
  using predClass_threshold [of "OutObject (Some (1 / 2))" start_cfg
      "\<lambda>v. OutObject (Some (1 / 2))" no_counts row1]
  by (simp add: predVal_def predClass_def THRESHOLD_def no_counts_def row1_def)

section \<open>Prediction requests before training has finished\<close>

lemma step_trained: "\<not> is_done e \<Longrightarrow> trained (step st e) = trained st"
  by (cases e rule: is_done.cases)
     (auto simp: trainLstm_def onmessage_def predictFromText_def
       split: option.splits worker_msg.splits)

lemma foldl_step_trained:
  "\<forall>e \<in> set evs. \<not> is_done e \<Longrightarrow> trained (foldl step st evs) = trained st"
  by (induction evs arbitrary: st) (simp_all add: step_trained)

text \<open>
  Claim C9. A predict request made before any training run has completed (no \<open>done\<close>
  message has arrived, so \<open>lstmState.trained\<close> is false; or there is no worker) is
  rejected at once with the error "LSTM not trained yet": nothing is posted to the worker,
  no listener is added, and no prediction is returned.
\<close>

theorem predict_before_done:
  "((\<forall>e \<in> set evs. \<not> is_done e) \<longrightarrow>
      predictFromText txt (run evs) = (Rejected ''LSTM not trained yet'', run evs)) \<and>
   (worker st = None \<or> \<not> trained st \<longrightarrow>
      predictFromText txt st = (Rejected ''LSTM not trained yet'', st))"
proof (intro conjI impI)
  assume "\<forall>e \<in> set evs. \<not> is_done e"
  then have "trained (run evs) = trained initial"
    unfolding run_def by (rule foldl_step_trained)
  then have "\<not> trained (run evs)" by (simp add: initial_def)
  then show "predictFromText txt (run evs) = (Rejected ''LSTM not trained yet'', run evs)"
    by (simp add: predictFromText_def split: option.splits)
next
  assume "worker st = None \<or> \<not> trained st"
  then show "predictFromText txt st = (Rejected ''LSTM not trained yet'', st)"
    by (auto simp: predictFromText_def split: option.splits)
qed

theorem predict_before_done_witness:
  "\<not> is_done CallTrain \<and> \<not> is_done (FromWorker (Progress 10)) \<and>
   worker (run [CallTrain, FromWorker (Progress 10)]) = Some 0 \<and>
   predictFromText ''male age30 sameday sms'' (run [CallTrain, FromWorker (Progress 10)]) =
     (Rejected ''LSTM not trained yet'', run [CallTrain, FromWorker (Progress 10)]) \<and>
   predictFromText ''male age30 sameday sms'' initial =
     (Rejected ''LSTM not trained yet'', initial)"
  using predict_before_done [of "[CallTrain, FromWorker (Progress 10)]"
      "''male age30 sameday sms''" initial]
  by (simp add: run_def initial_def trainLstm_def onmessage_def)

text \<open>Once \<open>done\<close> has arrived the request goes to the worker.\<close>

lemma predict_after_done:
  "fst (predictFromText txt (run [CallTrain, FromWorker (Done m)])) = Pending"
  by (simp add: run_def initial_def trainLstm_def onmessage_def predictFromText_def)

section \<open>Shuffling permutes\<close>

lemma floor_rat_numeral: "\<lfloor>(numeral a :: rat) / numeral b\<rfloor> = numeral a div numeral b"
  using floor_divide_of_int_eq [of "numeral a" "numeral b", where ?'a = rat] by simp

lemma row_labels: "noshow row1 = 1 \<and> noshow row2 = 0 \<and> noshow row3 = 0"
  by (simp add: row1_def row2_def row3_def)

text \<open>The index drawn for position \<open>Suc i\<close> is at most \<open>Suc i\<close>.\<close>

lemma random_index:
  fixes u :: rat
  assumes "0 \<le> u" "u < 1"
  shows "nat \<lfloor>u * (of_nat (Suc i) + 1)\<rfloor> < Suc (Suc i)"
proof -
  have "u * (of_nat (Suc i) + 1) < 1 * (of_nat (Suc i) + 1)"
    using assms by (intro mult_strict_right_mono) simp_all
  then have "\<lfloor>u * (of_nat (Suc i) + 1)\<rfloor> < int (Suc i) + 1"
    by (simp add: floor_less_iff)
  then show ?thesis by linarith
qed

lemma length_swap: "length (swap i j xs) = length xs"
  by (simp add: swap_def)

lemma mset_swap_list: "i < length xs \<Longrightarrow> j < length xs \<Longrightarrow> mset (swap i j xs) = mset xs"
  unfolding swap_def by (rule mset_swap)

lemma shuffle_from_perm:
  "valid_rng rnd \<Longrightarrow> i < length xs \<Longrightarrow> mset (snd (shuffle_from rnd k i xs)) = mset xs"
proof (induction i arbitrary: k xs)
  case 0
  show ?case by simp
next
  case (Suc i)
  let ?j = "nat \<lfloor>rnd k * (of_nat (Suc i) + 1)\<rfloor>"
  from Suc.prems(1) have "0 \<le> rnd k" "rnd k < 1" by (simp_all add: valid_rng_def)
  then have "?j < Suc (Suc i)" by (rule random_index)
  with Suc.prems(2) have j: "?j < length xs" by simp
  have "mset (snd (shuffle_from rnd (Suc k) i (swap (Suc i) ?j xs))) = mset (swap (Suc i) ?j xs)"
    using Suc.prems by (intro Suc.IH) (simp_all add: length_swap)
  also have "\<dots> = mset xs" using Suc.prems(2) j by (rule mset_swap_list)
  finally show ?case by (simp add: Let_def)
qed

lemma shuffle_perm: "valid_rng rnd \<Longrightarrow> mset (snd (shuffle rnd k xs)) = mset xs"
  by (cases "xs = []") (simp_all add: shuffle_def shuffle_from_perm)

lemma length_shuffle_from: "length (snd (shuffle_from rnd k i xs)) = length xs"
  by (induction i arbitrary: k xs) (simp_all add: Let_def swap_def)

lemma length_shuffle: "length (snd (shuffle rnd k xs)) = length xs"
  by (simp add: shuffle_def length_shuffle_from)

section \<open>The class-balancing sampler\<close>

lemma foldl_push_samples:
  "foldl (push_samples cfg) ss rs =
   ss @ concat (map (\<lambda>r. replicate (if noshow r = 1 then 3 else 1) (entry cfg r)) rs)"
  by (induction rs arbitrary: ss)
     (simp_all add: push_samples_def OVERSAMPLE_FACTOR_def Let_def numeral_3_eq_3)

lemma length_oversampled:
  "length (concat (map (\<lambda>r. replicate (if noshow r = 1 then 3 else 1) (entry cfg r)) rs)) =
   3 * length (filter (\<lambda>r. noshow r = 1) rs) + length (filter (\<lambda>r. noshow r \<noteq> 1) rs)"
  by (induction rs) simp_all

text \<open>
  Claim C1. For a record list with \<open>p\<close> rows labelled 1 (no-show) and \<open>q\<close> other
  rows, \<open>prepareTrainingData\<close> returns exactly \<open>p * 3 + q\<close> samples, and they are a
  permutation of the multiset that holds the sample of every positive row three times and
  the sample of every other row once; the empty list gives the empty list. (The random
  numbers are those of \<open>Math.random\<close>, in \<open>[0, 1)\<close>.)
\<close>

theorem prepareTrainingData_samples:
  assumes "valid_rng rnd"
  shows "length (prepareTrainingData cfg rnd RAW_DATA) =
           length (filter (\<lambda>r. noshow r = 1) RAW_DATA) * 3 +
           length (filter (\<lambda>r. noshow r \<noteq> 1) RAW_DATA) \<and>
         mset (prepareTrainingData cfg rnd RAW_DATA) =
           mset (concat (map (\<lambda>r. replicate (if noshow r = 1 then 3 else 1) (entry cfg r))
                  RAW_DATA)) \<and>
         prepareTrainingData cfg rnd [] = []"
proof -
  have m: "mset (prepareTrainingData cfg rnd RAW_DATA) =
           mset (concat (map (\<lambda>r. replicate (if noshow r = 1 then 3 else 1) (entry cfg r))
                  RAW_DATA))"
    using assms by (simp add: prepareTrainingData_def shuffle_perm foldl_push_samples)
  have "length (prepareTrainingData cfg rnd RAW_DATA) =
        length (concat (map (\<lambda>r. replicate (if noshow r = 1 then 3 else 1) (entry cfg r))
                  RAW_DATA))"
    by (simp add: prepareTrainingData_def length_shuffle foldl_push_samples)
  then have l: "length (prepareTrainingData cfg rnd RAW_DATA) =
           length (filter (\<lambda>r. noshow r = 1) RAW_DATA) * 3 +
           length (filter (\<lambda>r. noshow r \<noteq> 1) RAW_DATA)"
    by (simp only: length_oversampled mult.commute)
  have e: "prepareTrainingData cfg rnd [] = []"
    by (simp add: prepareTrainingData_def shuffle_def)
  from l m e show ?thesis by blast
qed

theorem prepareTrainingData_samples_witness:
  "valid_rng (\<lambda>k. 1 / 2) \<and>
   length (prepareTrainingData start_cfg (\<lambda>k. 1 / 2) [row1, row2, row3]) = 5 \<and>
   prepareTrainingData start_cfg (\<lambda>k. 1 / 2) [row1, row2, row3] =
     [entry start_cfg row1, entry start_cfg row2, entry start_cfg row1, entry start_cfg row3,
      entry start_cfg row1]"
  using prepareTrainingData_samples [of "\<lambda>k. 1 / 2" start_cfg "[row1, row2, row3]"]
  by (simp add: valid_rng_def row_labels prepareTrainingData_def push_samples_def
      OVERSAMPLE_FACTOR_def shuffle_def swap_def Let_def floor_rat_numeral numeral_eq_Suc)

section \<open>The cut indices\<close>

lemma floor_times_div: "floor_times n c = round_to_53 (n * c) div 2 ^ 53"
proof -
  have e: "(2::rat) ^ 53 = of_nat (2 ^ 53)"
    by (simp only: of_nat_power of_nat_numeral)
  have "\<lfloor>(of_nat (round_to_53 (n * c)) :: rat) / of_nat (2 ^ 53)\<rfloor> =
        int (round_to_53 (n * c) div 2 ^ 53)"
    by (rule floor_divide_of_nat_eq)
  then show ?thesis
    by (simp only: floor_times_def times_double_def e nat_int)
qed

lemma bit_length_bounds: "0 < n \<Longrightarrow> 2 ^ (bit_length n - 1) \<le> n \<and> n < 2 ^ bit_length n"
proof (induction n rule: bit_length.induct)
  case (1 n)
  show ?case
  proof (cases "n div 2 = 0")
    case True
    with "1.prems" have "n = 1" by (simp add: div_eq_0_iff)
    then show ?thesis by (simp add: bit_length.simps)
  next
    case False
    with "1.IH" "1.prems"
    have ih: "2 ^ (bit_length (n div 2) - 1) \<le> n div 2" "n div 2 < 2 ^ bit_length (n div 2)"
      by simp_all
    have pos: "0 < bit_length (n div 2)" using False by (subst bit_length.simps) simp
    have b: "bit_length n = Suc (bit_length (n div 2))"
      using "1.prems" by (subst bit_length.simps) simp
    have "2 ^ (bit_length n - 1) = 2 * 2 ^ (bit_length (n div 2) - 1)"
      using pos b by (cases "bit_length (n div 2)") simp_all
    also have "\<dots> \<le> 2 * (n div 2)" using ih(1) by simp
    also have "\<dots> \<le> n" by simp
    finally have lo: "2 ^ (bit_length n - 1) \<le> n" .
    have "n < 2 * (n div 2) + 2" by presburger
    also have "\<dots> \<le> 2 * 2 ^ bit_length (n div 2)" using ih(2) by simp
    finally have "n < 2 ^ bit_length n" by (simp add: b)
    with lo show ?thesis by simp
  qed
qed

text \<open>Rounding to 53 significant bits changes a number by at most the fraction \<open>2^-53\<close>
  of itself.\<close>

lemma round_to_53_error:
  "2 ^ 53 * round_to_53 N \<le> (2 ^ 53 + 1) * N \<and> (2 ^ 53 - 1) * N \<le> 2 ^ 53 * round_to_53 N"
proof (cases "bit_length N \<le> 53")
  case True
  then show ?thesis by (simp add: round_to_53_def)
next
  case False
  define s where "s = bit_length N - 53"
  define P :: nat where "P = 2 ^ s"
  define X where "X = (N div P) * P"
  define r where "r = N mod P"
  have N: "N = X + r" by (simp add: X_def r_def)
  have rP: "r < P" by (simp add: r_def P_def)
  from False have "0 < N" by (cases "N = 0") (simp_all add: bit_length.simps)
  then have "2 ^ (bit_length N - 1) \<le> N" using bit_length_bounds by blast
  moreover have "bit_length N - 1 = 52 + s" using False by (simp add: s_def)
  ultimately have big: "2 ^ 52 * P \<le> N" by (simp add: P_def power_add)
  have up: "round_to_53 N = X + P" if "P < 2 * r \<or> (2 * r = P \<and> odd (N div P))"
    using that False
    by (auto simp: round_to_53_def Let_def s_def [symmetric] P_def [symmetric] r_def X_def)
  have down: "round_to_53 N = X" if "\<not> (P < 2 * r \<or> (2 * r = P \<and> odd (N div P)))"
    using that False
    by (auto simp: round_to_53_def Let_def s_def [symmetric] P_def [symmetric] r_def X_def)
  show ?thesis
  proof (cases "P < 2 * r \<or> (2 * r = P \<and> odd (N div P))")
    case True
    then have "P \<le> 2 * r" by auto
    with up [OF True] N big rP show ?thesis by simp
  next
    case F: False
    then have "2 * r \<le> P" by auto
    with down [OF F] N big rP show ?thesis by simp
  qed
qed

lemma valEnd_le: "valEnd n \<le> n"
proof -
  let ?R = "round_to_53 (n * double_0_85)"
  from round_to_53_error [of "n * double_0_85"]
  have "2 ^ 53 * ?R \<le> (2 ^ 53 + 1) * (n * double_0_85)" by blast
  also have "\<dots> \<le> 2 ^ 53 * (2 ^ 53 * n)" by (simp add: double_0_85_def)
  finally have "?R \<le> 2 ^ 53 * n" by simp
  then have "?R div 2 ^ 53 \<le> (2 ^ 53 * n) div 2 ^ 53" by (rule div_le_mono)
  then show ?thesis by (simp add: valEnd_def floor_times_div)
qed

lemma trainEnd_le_valEnd: "trainEnd n \<le> valEnd n"
proof -
  let ?A = "round_to_53 (n * double_0_70)" and ?B = "round_to_53 (n * double_0_85)"
  from round_to_53_error [of "n * double_0_70"]
  have "2 ^ 53 * ?A \<le> (2 ^ 53 + 1) * (n * double_0_70)" by blast
  also have "\<dots> \<le> (2 ^ 53 - 1) * (n * double_0_85)"
    by (simp add: double_0_70_def double_0_85_def)
  also from round_to_53_error [of "n * double_0_85"]
  have "\<dots> \<le> 2 ^ 53 * ?B" by blast
  finally have "?A \<le> ?B" by simp
  then have "?A div 2 ^ 53 \<le> ?B div 2 ^ 53" by (rule div_le_mono)
  then show ?thesis by (simp add: trainEnd_def valEnd_def floor_times_div)
qed

text \<open>For every length an array can have, the cut indices are the exact floors
  \<open>\<lfloor>7 n / 10\<rfloor>\<close> and \<open>\<lfloor>85 n / 100\<rfloor>\<close> or one less (the literals
  \<open>0.70\<close> and \<open>0.85\<close> are doubles slightly below the fractions).\<close>

lemma trainEnd_near_exact:
  assumes "n < 2 ^ 32"
  shows "trainEnd n \<le> 7 * n div 10 \<and> 7 * n div 10 \<le> trainEnd n + 1"
proof -
  define R where "R = round_to_53 (n * double_0_70)"
  define q where "q = 7 * n div 10"
  have d: "q * 10 + 7 * n mod 10 = 7 * n" unfolding q_def by (rule div_mult_mod_eq)
  have m: "7 * n mod 10 < 10" by (rule mod_less_divisor) simp
  from d have q1: "10 * q \<le> 7 * n" by linarith
  from d m have q2: "7 * n \<le> 10 * q + 9" by linarith
  have n: "n < 4294967296" using assms by simp
  have c1: "(9007199254740992 + 1) * (n * double_0_70) = 56790746890224679889212080023142 * n"
    by (simp add: double_0_70_def)
  have c2: "(9007199254740992 - 1) * (n * double_0_70) = 56790746890224667279133123385754 * n"
    by (simp add: double_0_70_def)
  have k: "(2::nat) ^ 53 = 9007199254740992" by simp
  from round_to_53_error [of "n * double_0_70"]
  have e1: "9007199254740992 * R \<le> 56790746890224679889212080023142 * n"
    and e2: "56790746890224667279133123385754 * n \<le> 9007199254740992 * R"
    unfolding k c1 c2 R_def by blast+
  from e1 q2 n have "R < 9007199254740992 * q + 9007199254740992" by linarith
  then have "R < (q + 1) * 2 ^ 53" unfolding k by simp
  then have "R div 2 ^ 53 < q + 1"
    by (simp only: div_less_iff_less_mult zero_less_power zero_less_numeral)
  then have u: "R div 2 ^ 53 \<le> q" by simp
  from e2 q1 n have "9007199254740992 * q \<le> R + 9007199254740992" by linarith
  then have "q * 2 ^ 53 \<le> R + 1 * 2 ^ 53" unfolding k by simp
  then have "(q * 2 ^ 53) div 2 ^ 53 \<le> (R + 1 * 2 ^ 53) div 2 ^ 53" by (rule div_le_mono)
  then have l: "q \<le> R div 2 ^ 53 + 1"
    by (simp only: div_mult_self_is_m div_mult_self1 zero_less_power zero_less_numeral
        power_eq_0_iff) simp
  from u l show ?thesis by (simp only: trainEnd_def floor_times_div q_def R_def)
qed

lemma valEnd_near_exact:
  assumes "n < 2 ^ 32"
  shows "valEnd n \<le> 85 * n div 100 \<and> 85 * n div 100 \<le> valEnd n + 1"
proof -
  define R where "R = round_to_53 (n * double_0_85)"
  define q where "q = 85 * n div 100"
  have d: "q * 100 + 85 * n mod 100 = 85 * n" unfolding q_def by (rule div_mult_mod_eq)
  have m: "85 * n mod 100 < 100" by (rule mod_less_divisor) simp
  from d have q1: "100 * q \<le> 85 * n" by linarith
  from d m have q2: "85 * n \<le> 100 * q + 99" by linarith
  have n: "n < 4294967296" using assms by simp
  have c1: "(9007199254740992 + 1) * (n * double_0_85) = 68960192652415685296100169954099 * n"
    by (simp add: double_0_85_def)
  have c2: "(9007199254740992 - 1) * (n * double_0_85) = 68960192652415669983861436894413 * n"
    by (simp add: double_0_85_def)
  have k: "(2::nat) ^ 53 = 9007199254740992" by simp
  from round_to_53_error [of "n * double_0_85"]
  have e1: "9007199254740992 * R \<le> 68960192652415685296100169954099 * n"
    and e2: "68960192652415669983861436894413 * n \<le> 9007199254740992 * R"
    unfolding k c1 c2 R_def by blast+
  from e1 q2 n have "R < 9007199254740992 * q + 9007199254740992" by linarith
  then have "R < (q + 1) * 2 ^ 53" unfolding k by simp
  then have "R div 2 ^ 53 < q + 1"
    by (simp only: div_less_iff_less_mult zero_less_power zero_less_numeral)
  then have u: "R div 2 ^ 53 \<le> q" by simp
  from e2 q1 n have "9007199254740992 * q \<le> R + 9007199254740992" by linarith
  then have "q * 2 ^ 53 \<le> R + 1 * 2 ^ 53" unfolding k by simp
  then have "(q * 2 ^ 53) div 2 ^ 53 \<le> (R + 1 * 2 ^ 53) div 2 ^ 53" by (rule div_le_mono)
  then have l: "q \<le> R div 2 ^ 53 + 1"
    by (simp only: div_mult_self_is_m div_mult_self1 zero_less_power zero_less_numeral
        power_eq_0_iff) simp
  from u l show ?thesis by (simp only: valEnd_def floor_times_div q_def R_def)
qed

text \<open>Two values. At 90 rows the double product \<open>90 * 0.70\<close> is
  \<open>62.99999999999999\<close>, so the cut is 62 although \<open>7 * 90 / 10 = 63\<close>.\<close>

lemma cuts_of_3: "trainEnd 3 = 2 \<and> valEnd 3 = 2"
  by (simp add: trainEnd_def valEnd_def floor_times_div round_to_53_def double_0_70_def
      double_0_85_def bit_length.simps Let_def)

lemma trainEnd_90: "trainEnd 90 = 62"
  by (simp add: trainEnd_def floor_times_div round_to_53_def double_0_70_def
      bit_length.simps Let_def)

section \<open>The split\<close>

text \<open>
  Claim C2. For a record list of length \<open>n\<close>, the split step of \<open>buildDataset\<close>
  cuts the shuffled list into three slices of sizes \<open>trainEnd\<close>,
  \<open>valEnd - trainEnd\<close> and \<open>n - valEnd\<close>, where \<open>trainEnd = Math.floor(n * 0.70)\<close>
  and \<open>valEnd = Math.floor(n * 0.85)\<close> as the code computes them; the sizes sum to
  \<open>n\<close>, and the slices, one after the other, are the shuffled list, so that no position
  belongs to two of them.
\<close>

theorem split3_partition:
  "(case split3 (shuffled_all rnd RAW_DATA) of
      (rawTrain, val, tst) \<Rightarrow>
        length (shuffled_all rnd RAW_DATA) = length RAW_DATA \<and>
        length rawTrain = trainEnd (length RAW_DATA) \<and>
        length val = valEnd (length RAW_DATA) - trainEnd (length RAW_DATA) \<and>
        length tst = length RAW_DATA - valEnd (length RAW_DATA) \<and>
        length rawTrain + length val + length tst = length RAW_DATA \<and>
        rawTrain @ val @ tst = shuffled_all rnd RAW_DATA)"
proof -
  let ?all = "shuffled_all rnd RAW_DATA" and ?n = "length RAW_DATA"
  have n: "length ?all = ?n" by (simp add: shuffled_all_def length_shuffle)
  have le: "trainEnd ?n \<le> valEnd ?n" "valEnd ?n \<le> ?n"
    by (rule trainEnd_le_valEnd, rule valEnd_le)
  have "take (trainEnd ?n) ?all @ take (valEnd ?n - trainEnd ?n) (drop (trainEnd ?n) ?all) =
        take (trainEnd ?n + (valEnd ?n - trainEnd ?n)) ?all"
    by (simp only: take_add)
  also have "\<dots> = take (valEnd ?n) ?all" using le by simp
  finally have "(take (trainEnd ?n) ?all @ take (valEnd ?n - trainEnd ?n) (drop (trainEnd ?n) ?all))
        @ drop (valEnd ?n) ?all = ?all"
    by (simp only: append_take_drop_id)
  then have "take (trainEnd ?n) ?all @ take (valEnd ?n - trainEnd ?n) (drop (trainEnd ?n) ?all)
        @ drop (valEnd ?n) ?all = ?all"
    by (simp only: append_assoc)
  with n le show ?thesis by (simp add: split3_def js_slice_def)
qed

theorem split3_partition_witness:
  "split3 (shuffled_all (\<lambda>k. 1 / 2) [row1, row2, row3]) =
     ([encode row1, encode row3], [], [encode row2]) \<and>
   trainEnd (length [row1, row2, row3]) = 2 \<and> valEnd (length [row1, row2, row3]) = 2"
  using split3_partition [of "\<lambda>k. 1 / 2" "[row1, row2, row3]"] cuts_of_3
  by (simp add: split3_def js_slice_def shuffled_all_def shuffle_def swap_def Let_def
      floor_rat_numeral numeral_eq_Suc)

section \<open>Oversampling touches the train partition only\<close>

lemma encode_label: "t_noshow (encode r) = noshow r"
  by (simp add: encode_def)

lemma foldl_oversample:
  "foldl (\<lambda>train s. if t_noshow s = 1 then train @ [s, s] else train) ts xs =
   ts @ concat (map (\<lambda>s. if t_noshow s = 1 then [s, s] else []) xs)"
  by (induction xs arbitrary: ts) simp_all

lemma oversample_append:
  "oversample rawTrain =
   rawTrain @ concat (map (\<lambda>s. if t_noshow s = 1 then [s, s] else []) rawTrain)"
  by (simp add: oversample_def foldl_oversample)

lemma count_duplicates:
  "count (mset (concat (map (\<lambda>s. if t_noshow s = 1 then [s, s] else []) xs))) x =
   (if t_noshow x = 1 then 2 else 0) * count (mset xs) x"
  by (induction xs) auto

lemma count_oversample:
  "count (mset (oversample xs)) x = (if t_noshow x = 1 then 3 else 1) * count (mset xs) x"
  by (simp add: oversample_append count_duplicates)

text \<open>
  Claim C3. In \<open>buildDataset\<close> the validation and test partitions that are returned are
  exactly the slices of the shuffled list, untouched by the oversampling. Only the train
  partition is changed: two more copies of every positive sample of the base slice are
  appended after it, and the result is shuffled again, so that the returned train
  partition holds every positive sample of the base slice three times and every other
  one once.
\<close>

theorem buildDataset_oversamples_train_only:
  assumes "valid_rng rnd"
  shows "(case split3 (shuffled_all rnd RAW_DATA) of
      (rawTrain, val, tst) \<Rightarrow>
        validation (buildDataset rnd RAW_DATA) = val \<and>
        test (buildDataset rnd RAW_DATA) = tst \<and>
        val = js_slice (trainEnd (length RAW_DATA)) (valEnd (length RAW_DATA))
                (shuffled_all rnd RAW_DATA) \<and>
        tst = drop (valEnd (length RAW_DATA)) (shuffled_all rnd RAW_DATA) \<and>
        oversample rawTrain =
          rawTrain @ concat (map (\<lambda>s. if t_noshow s = 1 then [s, s] else []) rawTrain) \<and>
        (\<exists>k. train (buildDataset rnd RAW_DATA) = snd (shuffle rnd k (oversample rawTrain))) \<and>
        mset (train (buildDataset rnd RAW_DATA)) = mset (oversample rawTrain) \<and>
        (\<forall>s. count (mset (train (buildDataset rnd RAW_DATA))) s =
              (if t_noshow s = 1 then 3 else 1) * count (mset rawTrain) s))"
proof -
  let ?all = "shuffled_all rnd RAW_DATA"
  let ?k = "fst (shuffle rnd 0 (map encode RAW_DATA))"
  let ?raw = "js_slice 0 (trainEnd (length ?all)) ?all"
  have n: "length ?all = length RAW_DATA" by (simp add: shuffled_all_def length_shuffle)
  have t: "train (buildDataset rnd RAW_DATA) = snd (shuffle rnd ?k (oversample ?raw))"
    by (simp add: buildDataset_def split3_def shuffled_all_def split_beta Let_def)
  have v: "validation (buildDataset rnd RAW_DATA) =
      js_slice (trainEnd (length ?all)) (valEnd (length ?all)) ?all"
    by (simp add: buildDataset_def split3_def shuffled_all_def split_beta Let_def)
  have e: "test (buildDataset rnd RAW_DATA) = drop (valEnd (length ?all)) ?all"
    by (simp add: buildDataset_def split3_def shuffled_all_def split_beta Let_def)
  have m: "mset (train (buildDataset rnd RAW_DATA)) = mset (oversample ?raw)"
    using assms by (simp only: t shuffle_perm)
  have c: "count (mset (train (buildDataset rnd RAW_DATA))) s =
      (if t_noshow s = 1 then 3 else 1) * count (mset ?raw) s" for s
    by (simp only: m count_oversample)
  from t have x: "\<exists>k. train (buildDataset rnd RAW_DATA) = snd (shuffle rnd k (oversample ?raw))"
    by blast
  show ?thesis
    using v e m c x by (simp add: split3_def n oversample_append [symmetric])
qed

theorem buildDataset_oversamples_train_only_witness:
  "valid_rng (\<lambda>k. 1 / 2) \<and>
   validation (buildDataset (\<lambda>k. 1 / 2) [row1, row2, row3]) = [] \<and>
   test (buildDataset (\<lambda>k. 1 / 2) [row1, row2, row3]) = [encode row2] \<and>
   train (buildDataset (\<lambda>k. 1 / 2) [row1, row2, row3]) =
     [encode row1, encode row1, encode row3, encode row1]"
  using buildDataset_oversamples_train_only [of "\<lambda>k. 1 / 2" "[row1, row2, row3]"] cuts_of_3
  by (simp add: valid_rng_def buildDataset_def split3_def js_slice_def shuffled_all_def
      oversample_def encode_label row_labels shuffle_def swap_def Let_def floor_rat_numeral
      numeral_eq_Suc)

section \<open>Cleaning text\<close>

lemma space_is_space: "is_space (CHR '' '')"
  by (simp add: is_space_def)

lemma clean_space: "clean_char c \<Longrightarrow> is_space c \<Longrightarrow> c = CHR '' ''"
  by (auto simp: clean_char_def is_space_def is_lower_def is_digit_def Let_def)

lemma lower_char_clean: "clean_char c \<Longrightarrow> lower_char c = c"
  by (auto simp: clean_char_def lower_char_def is_lower_def is_digit_def Let_def)

lemma clean_char_kept: "clean_char c \<Longrightarrow> is_lower c \<or> is_digit c \<or> is_space c"
  by (auto simp: clean_char_def space_is_space)

lemma collapse_ws_Nil_iff: "collapse_ws s = [] \<longleftrightarrow> s = []"
  by (cases s) simp_all

lemma hd_collapse_ws: "s \<noteq> [] \<Longrightarrow> is_space (hd (collapse_ws s)) = is_space (hd s)"
  by (cases s) (simp_all add: space_is_space)

lemma set_collapse_ws:
  "x \<in> set (collapse_ws s) \<Longrightarrow> x = CHR '' '' \<or> (x \<in> set s \<and> \<not> is_space x)"
proof (induction s rule: collapse_ws.induct)
  case 1
  then show ?case by simp
next
  case (2 c cs)
  show ?case
  proof (cases "is_space c")
    case True
    with "2.prems" have "x = CHR '' '' \<or> x \<in> set (collapse_ws (dropWhile is_space cs))" by simp
    with "2.IH"(1) [OF True] show ?thesis by (auto dest: set_dropWhileD)
  next
    case False
    with "2.prems" have "x = c \<or> x \<in> set (collapse_ws cs)" by simp
    with "2.IH"(2) [OF False] False show ?thesis by auto
  qed
qed

lemma no_runs_collapse_ws:
  "successively (\<lambda>a b. \<not> (is_space a \<and> is_space b)) (collapse_ws s)"
proof (induction s rule: collapse_ws.induct)
  case 1
  show ?case by simp
next
  case (2 c cs)
  show ?case
  proof (cases "is_space c")
    case True
    let ?t = "dropWhile is_space cs"
    have "collapse_ws ?t = [] \<or> \<not> is_space (hd (collapse_ws ?t))"
    proof (cases "?t = []")
      case True
      then have "collapse_ws ?t = []" by (simp only: collapse_ws.simps)
      then show ?thesis ..
    next
      case False
      then have "\<not> is_space (hd ?t)" by (rule hd_dropWhile)
      with False show ?thesis by (simp add: hd_collapse_ws)
    qed
    with "2.IH"(1) [OF True] True show ?thesis by (auto simp: successively_Cons)
  next
    case False
    with "2.IH"(2) [OF False] show ?thesis by (auto simp: successively_Cons)
  qed
qed

lemma successively_dropWhile:
  "successively P xs \<Longrightarrow> successively P (dropWhile Q xs)"
  by (metis successively_append_iff takeWhile_dropWhile_id)

lemma no_runs_trim:
  assumes "successively (\<lambda>a b. \<not> (is_space a \<and> is_space b)) s"
  shows "successively (\<lambda>a b. \<not> (is_space a \<and> is_space b)) (trim s)"
proof -
  have c: "(\<lambda>x y. \<not> (is_space y \<and> is_space x)) = (\<lambda>a b. \<not> (is_space a \<and> is_space b))"
    by (intro ext) auto
  from assms have "successively (\<lambda>a b. \<not> (is_space a \<and> is_space b)) (dropWhile is_space s)"
    by (rule successively_dropWhile)
  then have "successively (\<lambda>a b. \<not> (is_space a \<and> is_space b)) (rev (dropWhile is_space s))"
    by (simp only: successively_rev c)
  then have "successively (\<lambda>a b. \<not> (is_space a \<and> is_space b))
      (dropWhile is_space (rev (dropWhile is_space s)))"
    by (rule successively_dropWhile)
  then show ?thesis by (simp only: trim_def successively_rev c)
qed

lemma set_trim: "set (trim s) \<subseteq> set s"
  by (auto simp: trim_def dest!: set_dropWhileD)

lemma trim_ends:
  "trim s = [] \<or> (\<not> is_space (hd (trim s)) \<and> \<not> is_space (last (trim s)))"
proof (cases "trim s = []")
  case True
  then show ?thesis by simp
next
  case False
  let ?u = "dropWhile is_space s"
  let ?v = "dropWhile is_space (rev ?u)"
  from False have v: "?v \<noteq> []" by (simp add: trim_def)
  have u: "?u \<noteq> []"
  proof
    assume "?u = []"
    then have "?v = []" by (simp only: rev.simps dropWhile.simps)
    with v show False ..
  qed
  have "last (trim s) = hd ?v" by (simp add: trim_def last_rev)
  moreover from v have "\<not> is_space (hd ?v)" by (rule hd_dropWhile)
  ultimately have l: "\<not> is_space (last (trim s))" by simp
  have "hd (trim s) = last ?v" by (simp add: trim_def hd_rev)
  also have "\<dots> = last (rev ?u)"
    using v by (metis takeWhile_dropWhile_id last_appendR)
  also have "\<dots> = hd ?u" by (simp add: last_rev)
  finally have "hd (trim s) = hd ?u" .
  moreover from u have "\<not> is_space (hd ?u)" by (rule hd_dropWhile)
  ultimately show ?thesis using l by simp
qed

lemma trim_fixed:
  assumes "s = [] \<or> (\<not> is_space (hd s) \<and> \<not> is_space (last s))"
  shows "trim s = s"
proof (cases "s = []")
  case True
  then show ?thesis by (simp add: trim_def)
next
  case False
  with assms have "\<not> is_space (hd s)" "\<not> is_space (last s)" by simp_all
  then have "dropWhile is_space s = s" "dropWhile is_space (rev s) = rev s"
    using False by (simp_all add: dropWhile_eq_self_iff hd_rev)
  then show ?thesis by (simp add: trim_def)
qed

lemma collapse_ws_fixed:
  "\<forall>c \<in> set s. is_space c \<longrightarrow> c = CHR '' '' \<Longrightarrow>
   successively (\<lambda>a b. \<not> (is_space a \<and> is_space b)) s \<Longrightarrow> collapse_ws s = s"
proof (induction s rule: collapse_ws.induct)
  case 1
  show ?case by simp
next
  case (2 c cs)
  show ?case
  proof (cases "is_space c")
    case True
    with "2.prems"(1) have c: "c = CHR '' ''" by simp
    from "2.prems"(2) True have "cs = [] \<or> \<not> is_space (hd cs)"
      by (auto simp: successively_Cons)
    then have d: "dropWhile is_space cs = cs" by (simp add: dropWhile_eq_self_iff)
    from "2.prems" have "collapse_ws (dropWhile is_space cs) = dropWhile is_space cs"
      by (intro "2.IH"(1) [OF True]) (auto simp: d successively_Cons)
    with True c d show ?thesis by simp
  next
    case False
    from "2.prems" have "collapse_ws cs = cs"
      by (intro "2.IH"(2) [OF False]) (auto simp: successively_Cons)
    with False show ?thesis by simp
  qed
qed

lemma doubled_space_iff:
  "doubled_space s \<longleftrightarrow> \<not> successively (\<lambda>a b. \<not> (a = CHR '' '' \<and> b = CHR '' '')) s"
  by (induction s rule: doubled_space.induct) auto

lemma cleanText_chars: "c \<in> set (cleanText s) \<Longrightarrow> clean_char c"
proof -
  assume "c \<in> set (cleanText s)"
  then have "c \<in> set (collapse_ws (strip_other (toLowerCase s)))"
    using set_trim by (auto simp: cleanText_def)
  then have "c = CHR '' '' \<or> (c \<in> set (strip_other (toLowerCase s)) \<and> \<not> is_space c)"
    by (rule set_collapse_ws)
  then show "clean_char c" by (auto simp: clean_char_def strip_other_def)
qed

lemma cleanText_no_runs:
  "successively (\<lambda>a b. \<not> (is_space a \<and> is_space b)) (cleanText s)"
  unfolding cleanText_def by (intro no_runs_trim no_runs_collapse_ws)

lemma cleanText_ends:
  "cleanText s = [] \<or> (\<not> is_space (hd (cleanText s)) \<and> \<not> is_space (last (cleanText s)))"
  unfolding cleanText_def by (rule trim_ends)

lemma cleanText_fixed:
  assumes "\<forall>c \<in> set t. clean_char c"
    and "successively (\<lambda>a b. \<not> (is_space a \<and> is_space b)) t"
    and "t = [] \<or> (\<not> is_space (hd t) \<and> \<not> is_space (last t))"
  shows "cleanText t = t"
proof -
  have 1: "toLowerCase t = t"
    unfolding toLowerCase_def using assms(1) by (intro map_idI) (simp add: lower_char_clean)
  have 2: "strip_other t = t"
    unfolding strip_other_def using assms(1) by (auto intro!: filter_True dest: clean_char_kept)
  have 3: "collapse_ws t = t"
    using assms(1,2) by (intro collapse_ws_fixed) (auto dest: clean_space)
  have 4: "trim t = t" using assms(3) by (rule trim_fixed)
  show ?thesis by (simp add: cleanText_def 1 2 3 4)
qed

lemma leading_space_hd: "leading_space u \<longleftrightarrow> u \<noteq> [] \<and> hd u = CHR '' ''"
  by (cases u) (simp_all add: leading_space_def)

text \<open>
  Claim C6. \<open>cleanText\<close> is total and idempotent: cleaning a cleaned text changes
  nothing. A cleaned text holds only the characters \<open>a\<close> to \<open>z\<close>, \<open>0\<close> to
  \<open>9\<close> and the space, it neither starts nor ends with a space, and it has no two
  spaces in a row.
\<close>

theorem cleanText_idempotent:
  "cleanText (cleanText s) = cleanText s \<and>
   list_all clean_char (cleanText s) \<and>
   \<not> leading_space (cleanText s) \<and>
   \<not> trailing_space (cleanText s) \<and>
   \<not> doubled_space (cleanText s)"
proof -
  let ?t = "cleanText s"
  have a: "\<forall>c \<in> set ?t. clean_char c" by (simp add: cleanText_chars)
  have b: "successively (\<lambda>a b. \<not> (is_space a \<and> is_space b)) ?t" by (rule cleanText_no_runs)
  have c: "?t = [] \<or> (\<not> is_space (hd ?t) \<and> \<not> is_space (last ?t))" by (rule cleanText_ends)
  have i: "cleanText ?t = ?t" using a b c by (rule cleanText_fixed)
  have l: "\<not> leading_space ?t"
    using c space_is_space by (auto simp: leading_space_hd)
  have t: "\<not> trailing_space ?t"
    using c space_is_space by (auto simp: trailing_space_def leading_space_hd hd_rev)
  have "successively (\<lambda>a b. \<not> (a = CHR '' '' \<and> b = CHR '' '')) ?t"
    using b by (rule successively_mono) (auto simp: space_is_space)
  then have d: "\<not> doubled_space ?t" by (simp add: doubled_space_iff)
  from i a l t d show ?thesis by (simp add: list_all_iff)
qed

theorem cleanText_idempotent_witness:
  "cleanText ''  Hello,   World!  42 '' = ''hello world 42'' \<and>
   cleanText (cleanText ''  Hello,   World!  42 '') = ''hello world 42''"
  using cleanText_idempotent [of "''  Hello,   World!  42 ''"]
  by (simp add: cleanText_def trim_def strip_other_def toLowerCase_def lower_char_def
      is_space_def is_lower_def is_digit_def char_of_def bit_0)

section \<open>Zero denominators in the evaluators\<close>

lemma percent_0_0: "percent 0 0 = ''NaN''"
  by (simp add: percent_def js_div_def)

lemma evalSet_empty:
  "evalSet net [] = \<lparr>acc = ''0.0'', showRecall = ''0.0'', noshowRecall_set = ''0.0''\<rparr>"
  by (simp add: evalSet_def no_counts_def)

lemma tally_show: "tpShow (tally ok sh c) + fnShow (tally ok sh c) = tpShow c + fnShow c + (if sh then 1 else 0)"
  by (simp add: tally_def)

lemma tally_noshow:
  "tpNoshow (tally ok sh c) + fnNoshow (tally ok sh c) = tpNoshow c + fnNoshow c + (if sh then 0 else 1)"
  by (simp add: tally_def)

lemma count_record_totals:
  "tpShow (foldl (count_record cfg net) c rs) + fnShow (foldl (count_record cfg net) c rs) =
     tpShow c + fnShow c + length (filter (\<lambda>r. noshow r = 0) rs) \<and>
   tpNoshow (foldl (count_record cfg net) c rs) + fnNoshow (foldl (count_record cfg net) c rs) =
     tpNoshow c + fnNoshow c + length (filter (\<lambda>r. noshow r \<noteq> 0) rs)"
proof (induction rs arbitrary: c)
  case Nil
  show ?case by simp
next
  case (Cons r rs)
  show ?case
    using Cons.IH [of "count_record cfg net c r"]
    by (simp add: count_record_def Let_def tally_show tally_noshow)
qed

lemma count_sample_totals:
  "tpShow (foldl (count_sample net) c ss) + fnShow (foldl (count_sample net) c ss) =
     tpShow c + fnShow c + length (filter (\<lambda>s. t_output s = ''yes'') ss) \<and>
   tpNoshow (foldl (count_sample net) c ss) + fnNoshow (foldl (count_sample net) c ss) =
     tpNoshow c + fnNoshow c + length (filter (\<lambda>s. t_output s \<noteq> ''yes'') ss)"
proof (induction ss arbitrary: c)
  case Nil
  show ?case by simp
next
  case (Cons s ss)
  show ?case
    using Cons.IH [of "count_sample net c s"]
    by (simp add: count_sample_def tally_show tally_noshow)
qed

lemma recall_zero_denominator:
  "(filter (\<lambda>r. noshow r = 0) rs = [] \<longrightarrow> showUpRecall (evaluateAccuracy cfg net rs) = ''0.0'') \<and>
   (filter (\<lambda>r. noshow r \<noteq> 0) rs = [] \<longrightarrow> noshowRecall (evaluateAccuracy cfg net rs) = ''0.0'') \<and>
   (filter (\<lambda>s. t_output s = ''yes'') ss = [] \<longrightarrow> showRecall (evalSet tnet ss) = ''0.0'') \<and>
   (filter (\<lambda>s. t_output s \<noteq> ''yes'') ss = [] \<longrightarrow> noshowRecall_set (evalSet tnet ss) = ''0.0'')"
  using count_record_totals [of cfg net no_counts rs] count_sample_totals [of tnet no_counts ss]
  by (auto simp: evaluateAccuracy_def evalSet_def Let_def no_counts_def)

lemma percent_example: "percent 1 3 = ''33.3''"
  by (simp add: percent_def js_div_def floor_rat_numeral digits.simps digit_char_def
      char_of_def bit_0)


end
